theory Spec2Isabelle
  imports Main "HOL-Library.Multiset" "HOL-Library.AList" "HOL-Library.Char_ord"
    "HOL-Library.List_Lexorder"
begin

section \<open>Data model of \<open>common/base_arch.h\<close>\<close>

text \<open>
  The resource identities \<open>BelId\<close>, \<open>WireId\<close> and \<open>PipId\<close> are declared by each
  architecture (\<open>archdefs.h\<close>); \<open>base_arch.h\<close> only compares them, hashes them and
  default-constructs them.  A handle is therefore either the default-constructed one
  (\<open>BelId()\<close>, here \<open>NoBel\<close>) or a proper one, numbered by the device.
\<close>

datatype BelId = NoBel | Bel nat
datatype WireId = NoWire | Wire nat
datatype PipId = NoPip | Pip nat

text \<open>
  \<open>PlaceStrength\<close> is an enumeration declared in \<open>nextpnr_types.h\<close>.  The binding
  code names only \<open>STRENGTH_NONE\<close>; every other value is the caller's and is stored
  as it comes.
\<close>

datatype PlaceStrength =
  STRENGTH_NONE | STRENGTH_WEAK | STRENGTH_STRONG | STRENGTH_PLACER
  | STRENGTH_FIXED | STRENGTH_LOCKED | STRENGTH_USER

text \<open>
  The fields of \<open>CellInfo\<close>, \<open>PipMap\<close> and \<open>NetInfo\<close> that the binding code reads and
  writes.  \<open>net->wires\<close> is a map from wires to \<open>PipMap\<close> entries.
\<close>

record CellInfo =
  bel :: BelId
  belStrength :: PlaceStrength

record PipMap =
  pip :: PipId
  strength :: PlaceStrength

record NetInfo =
  wires :: "WireId \<rightharpoonup> PipMap"

text \<open>
  A \<open>CellInfo *\<close> or \<open>NetInfo *\<close> is an address into the netlist, or \<open>nullptr\<close>
  (\<open>None\<close>).  The netlist owns the objects; the state carries them as two stores.
\<close>

type_synonym CellPtr = "nat option"
type_synonym NetPtr = "nat option"

text \<open>
  \<open>NPNR_ASSERT\<close> raises \<open>assertion_failure\<close>; dereferencing \<open>nullptr\<close> and
  \<open>unordered_map::at\<close> on a missing key are the two other ways an operation does
  not return.
\<close>

datatype error = assertion_failure | null_dereference | out_of_range

text \<open>
  \<open>refreshUiBel\<close> and \<open>refreshUiWire\<close> belong to the context base class, not to this
  file.  Modelled from the spec: the observer is notified, fire-and-forget, so a call is
  recorded as an event appended to a log.
\<close>

datatype ui_event = refreshUiBel BelId | refreshUiWire WireId

text \<open>
  The members of \<open>BaseArch\<close>, together with the netlist stores and the observer's log.
  An \<open>unordered_map\<close> to pointers is a partial map whose entries may hold \<open>nullptr\<close>:
  \<open>operator[]\<close> and unbinding leave such entries behind.  \<open>bucket_bels\<close> is iterated
  over, so it is kept as an association list with distinct keys; \<open>'t\<close> is \<open>IdString\<close>,
  which is also \<open>BelBucketId\<close> in the default configuration.
\<close>

record 't arch_state =
  base_bel2cell :: "BelId \<rightharpoonup> CellPtr"
  base_wire2net :: "WireId \<rightharpoonup> NetPtr"
  base_pip2net :: "PipId \<rightharpoonup> NetPtr"
  cell_types :: "'t list"
  bel_buckets :: "'t list"
  bucket_bels :: "('t \<times> BelId list) list"
  cell_types_initialised :: bool
  bel_buckets_initialised :: bool
  cells :: "nat \<Rightarrow> CellInfo"
  nets :: "nat \<Rightarrow> NetInfo"
  ui_log :: "ui_event list"

text \<open>
  What the concrete architecture supplies through \<open>ArchAPI\<close>: the range of all bels,
  each bel's type and each pip's destination wire.
\<close>

record 't device =
  getBels :: "BelId list"
  getBelType :: "BelId \<Rightarrow> 't"
  getPipDstWire :: "PipId \<Rightarrow> WireId"

text \<open>The state right after construction: empty maps and vectors, both flags false.\<close>

definition fresh :: "(nat \<Rightarrow> CellInfo) \<Rightarrow> (nat \<Rightarrow> NetInfo) \<Rightarrow> 't arch_state" where
  "fresh cs ns =
     \<lparr>base_bel2cell = Map.empty, base_wire2net = Map.empty, base_pip2net = Map.empty,
      cell_types = [], bel_buckets = [], bucket_bels = [],
      cell_types_initialised = False, bel_buckets_initialised = False,
      cells = cs, nets = ns, ui_log = []\<rparr>"

section \<open>Binding maps\<close>

text \<open>
  The pointer stored under a key: \<open>nullptr\<close> when the key is absent (what
  \<open>operator[]\<close> inserts, and what the \<open>find\<close>-based getters answer) or when the entry
  holds \<open>nullptr\<close>.
\<close>

definition entry_of :: "('k \<rightharpoonup> nat option) \<Rightarrow> 'k \<Rightarrow> nat option" where
  "entry_of m k = (case m k of None \<Rightarrow> None | Some e \<Rightarrow> e)"

definition bindBel :: "BelId \<Rightarrow> CellPtr \<Rightarrow> PlaceStrength \<Rightarrow> 't arch_state \<Rightarrow> error + 't arch_state" where
  "bindBel b cell st s =
     (if b = NoBel then Inl assertion_failure
      else if entry_of (base_bel2cell s) b \<noteq> None then Inl assertion_failure
      else case cell of
        None \<Rightarrow> Inl null_dereference
      | Some c \<Rightarrow>
          Inr (s\<lparr>cells := (cells s)(c := (cells s c)\<lparr>bel := b, belStrength := st\<rparr>),
                 base_bel2cell := (base_bel2cell s)(b \<mapsto> Some c),
                 ui_log := ui_log s @ [refreshUiBel b]\<rparr>))"

definition unbindBel :: "BelId \<Rightarrow> 't arch_state \<Rightarrow> error + 't arch_state" where
  "unbindBel b s =
     (if b = NoBel then Inl assertion_failure
      else case entry_of (base_bel2cell s) b of
        None \<Rightarrow> Inl assertion_failure
      | Some c \<Rightarrow>
          Inr (s\<lparr>cells := (cells s)(c := (cells s c)\<lparr>bel := NoBel, belStrength := STRENGTH_NONE\<rparr>),
                 base_bel2cell := (base_bel2cell s)(b \<mapsto> None),
                 ui_log := ui_log s @ [refreshUiBel b]\<rparr>))"

definition getBoundBelCell :: "'t arch_state \<Rightarrow> BelId \<Rightarrow> CellPtr" where
  "getBoundBelCell s b = (case base_bel2cell s b of None \<Rightarrow> None | Some e \<Rightarrow> e)"

definition checkBelAvail :: "'t arch_state \<Rightarrow> BelId \<Rightarrow> bool" where
  "checkBelAvail s b = (getBoundBelCell s b = None)"

definition getConflictingBelCell :: "'t arch_state \<Rightarrow> BelId \<Rightarrow> CellPtr" where
  "getConflictingBelCell s b = getBoundBelCell s b"

definition bindWire :: "WireId \<Rightarrow> NetPtr \<Rightarrow> PlaceStrength \<Rightarrow> 't arch_state \<Rightarrow> error + 't arch_state" where
  "bindWire w net st s =
     (if w = NoWire then Inl assertion_failure
      else if entry_of (base_wire2net s) w \<noteq> None then Inl assertion_failure
      else case net of
        None \<Rightarrow> Inl null_dereference
      | Some n \<Rightarrow>
          Inr (s\<lparr>nets := (nets s)(n := (nets s n)
                   \<lparr>wires := (wires (nets s n))(w \<mapsto> \<lparr>pip = NoPip, strength = st\<rparr>)\<rparr>),
                 base_wire2net := (base_wire2net s)(w \<mapsto> Some n),
                 ui_log := ui_log s @ [refreshUiWire w]\<rparr>))"

definition unbindWire :: "WireId \<Rightarrow> 't arch_state \<Rightarrow> error + 't arch_state" where
  "unbindWire w s =
     (if w = NoWire then Inl assertion_failure
      else case entry_of (base_wire2net s) w of
        None \<Rightarrow> Inl assertion_failure
      | Some n \<Rightarrow>
         (case wires (nets s n) w of
            None \<Rightarrow> Inl assertion_failure
          | Some it \<Rightarrow>
              Inr (s\<lparr>base_pip2net :=
                       (if pip it \<noteq> NoPip then (base_pip2net s)(pip it \<mapsto> None)
                        else base_pip2net s),
                     nets := (nets s)(n := (nets s n)\<lparr>wires := (wires (nets s n))(w := None)\<rparr>),
                     base_wire2net := (base_wire2net s)(w \<mapsto> None),
                     ui_log := ui_log s @ [refreshUiWire w]\<rparr>)))"

definition getBoundWireNet :: "'t arch_state \<Rightarrow> WireId \<Rightarrow> NetPtr" where
  "getBoundWireNet s w = (case base_wire2net s w of None \<Rightarrow> None | Some e \<Rightarrow> e)"

definition checkWireAvail :: "'t arch_state \<Rightarrow> WireId \<Rightarrow> bool" where
  "checkWireAvail s w = (getBoundWireNet s w = None)"

definition bindPip ::
  "'t device \<Rightarrow> PipId \<Rightarrow> NetPtr \<Rightarrow> PlaceStrength \<Rightarrow> 't arch_state \<Rightarrow> error + 't arch_state" where
  "bindPip d p net st s =
     (if p = NoPip then Inl assertion_failure
      else if entry_of (base_pip2net s) p \<noteq> None then Inl assertion_failure
      else let dst = getPipDstWire d p in
        if entry_of (base_wire2net s) dst \<noteq> None then Inl assertion_failure
        else case net of
          None \<Rightarrow> Inl null_dereference
        | Some n \<Rightarrow>
            Inr (s\<lparr>base_pip2net := (base_pip2net s)(p \<mapsto> Some n),
                   base_wire2net := (base_wire2net s)(dst \<mapsto> Some n),
                   nets := (nets s)(n := (nets s n)
                     \<lparr>wires := (wires (nets s n))(dst \<mapsto> \<lparr>pip = p, strength = st\<rparr>)\<rparr>)\<rparr>))"

definition unbindPip :: "'t device \<Rightarrow> PipId \<Rightarrow> 't arch_state \<Rightarrow> error + 't arch_state" where
  "unbindPip d p s =
     (if p = NoPip then Inl assertion_failure
      else case entry_of (base_pip2net s) p of
        None \<Rightarrow> Inl assertion_failure
      | Some n \<Rightarrow>
          let dst = getPipDstWire d p in
          if entry_of (base_wire2net s) dst = None then Inl assertion_failure
          else
            Inr (s\<lparr>base_wire2net := (base_wire2net s)(dst \<mapsto> None),
                   nets := (nets s)(n := (nets s n)\<lparr>wires := (wires (nets s n))(dst := None)\<rparr>),
                   base_pip2net := (base_pip2net s)(p \<mapsto> None)\<rparr>))"

definition getBoundPipNet :: "'t arch_state \<Rightarrow> PipId \<Rightarrow> NetPtr" where
  "getBoundPipNet s p = (case base_pip2net s p of None \<Rightarrow> None | Some e \<Rightarrow> e)"

definition checkPipAvail :: "'t arch_state \<Rightarrow> PipId \<Rightarrow> bool" where
  "checkPipAvail s p = (getBoundPipNet s p = None)"

section \<open>Bucket classifier\<close>

text \<open>
  The default configuration: \<open>BelBucketId\<close> is \<open>IdString\<close>, so \<open>bbid_from_name\<close> is the
  identity, and the range types are those of \<open>BaseArchRanges\<close>, so \<open>return_if_match\<close>
  returns the stored vector.  \<open>IdString\<close> is declared in \<open>idstring.h\<close>; all that is used
  of it here is that \<open>std::sort\<close> orders it linearly (\<open>'t :: linorder\<close>).
\<close>

definition bbid_from_name :: "'t \<Rightarrow> 't" where
  "bbid_from_name name = name"

definition getBelBucketByName :: "'t \<Rightarrow> 't" where
  "getBelBucketByName name = bbid_from_name name"

definition getBelBucketForCellType :: "'t \<Rightarrow> 't" where
  "getBelBucketForCellType cell_type = getBelBucketByName cell_type"

definition getBelBucketForBel :: "'t device \<Rightarrow> BelId \<Rightarrow> 't" where
  "getBelBucketForBel d b = getBelBucketForCellType (getBelType d b)"

definition isValidBelForCellType :: "'t device \<Rightarrow> 't \<Rightarrow> BelId \<Rightarrow> bool" where
  "isValidBelForCellType d cell_type b = (cell_type = getBelType d b)"

definition getCellTypes :: "'t arch_state \<Rightarrow> error + 't list" where
  "getCellTypes s =
     (if cell_types_initialised s then Inr (cell_types s) else Inl assertion_failure)"

definition getBelBuckets :: "'t arch_state \<Rightarrow> error + 't list" where
  "getBelBuckets s =
     (if bel_buckets_initialised s then Inr (bel_buckets s) else Inl assertion_failure)"

definition getBelsInBucket :: "'t arch_state \<Rightarrow> 't \<Rightarrow> error + BelId list" where
  "getBelsInBucket s bucket =
     (if bel_buckets_initialised s then
        (case map_of (bucket_bels s) bucket of
           None \<Rightarrow> Inl out_of_range
         | Some bs \<Rightarrow> Inr bs)
      else Inl assertion_failure)"

text \<open>
  \<open>init_cell_types\<close>: the local \<open>unordered_set\<close> is a duplicate-free list built by
  \<open>List.insert\<close>; its iteration order is not specified by C++, and the \<open>std::sort\<close> that
  follows makes the result the same for every order.  The copy goes through a
  \<open>back_inserter\<close>, so it appends to whatever \<open>cell_types\<close> held.
\<close>

definition init_cell_types :: "('t :: linorder) device \<Rightarrow> 't arch_state \<Rightarrow> 't arch_state" where
  "init_cell_types d s =
     (let bel_types = fold (\<lambda>b acc. List.insert (getBelType d b) acc) (getBels d) []
      in s\<lparr>cell_types := sort (cell_types s @ bel_types), cell_types_initialised := True\<rparr>)"

text \<open>
  \<open>init_bel_buckets\<close>: \<open>bucket_bels[bucket]\<close> creates an empty bucket when the key is
  new; \<open>push_back\<close> appends the bel to the bucket's vector.  The keys are then copied
  after the old content of \<open>bel_buckets\<close> and the vector is sorted.
\<close>

definition init_bel_buckets :: "('t :: linorder) device \<Rightarrow> 't arch_state \<Rightarrow> error + 't arch_state" where
  "init_bel_buckets d s =
     (case getCellTypes s of
        Inl e \<Rightarrow> Inl e
      | Inr cts \<Rightarrow>
          let bb1 = fold (\<lambda>cell_type m.
                      AList.map_default (getBelBucketForCellType cell_type) [] (\<lambda>v. v) m)
                    cts (bucket_bels s);
              bb2 = fold (\<lambda>b m.
                      AList.map_default (getBelBucketForBel d b) [b] (\<lambda>v. v @ [b]) m)
                    (getBels d) bb1
          in Inr (s\<lparr>bucket_bels := bb2,
                    bel_buckets := sort (bel_buckets s @ map fst bb2),
                    bel_buckets_initialised := True\<rparr>))"

section \<open>Sequences of operations\<close>

datatype op =
  BindBel BelId CellPtr PlaceStrength
  | UnbindBel BelId
  | BindWire WireId NetPtr PlaceStrength
  | UnbindWire WireId
  | BindPip PipId NetPtr PlaceStrength
  | UnbindPip PipId
  | InitCellTypes
  | InitBelBuckets

fun exec_op :: "('t :: linorder) device \<Rightarrow> op \<Rightarrow> 't arch_state \<Rightarrow> error + 't arch_state" where
  "exec_op d (BindBel b cell st) s = bindBel b cell st s"
| "exec_op d (UnbindBel b) s = unbindBel b s"
| "exec_op d (BindWire w net st) s = bindWire w net st s"
| "exec_op d (UnbindWire w) s = unbindWire w s"
| "exec_op d (BindPip p net st) s = bindPip d p net st s"
| "exec_op d (UnbindPip p) s = unbindPip d p s"
| "exec_op d InitCellTypes s = Inr (init_cell_types d s)"
| "exec_op d InitBelBuckets s = init_bel_buckets d s"

text \<open>A sequence stops at the first operation that does not return.\<close>

fun exec_ops :: "('t :: linorder) device \<Rightarrow> op list \<Rightarrow> 't arch_state \<Rightarrow> error + 't arch_state" where
  "exec_ops d [] s = Inr s"
| "exec_ops d (x # xs) s =
     (case exec_op d x s of Inl e \<Rightarrow> Inl e | Inr s' \<Rightarrow> exec_ops d xs s')"

text \<open>
  \<open>bindBel\<close> does not look at the cell it is given.  The callers' discipline that a
  cell is unplaced when it is bound is a condition on the sequence: at every
  \<open>BindBel\<close> the cell's current \<open>bel\<close> field is \<open>BelId()\<close>.
\<close>

fun binds_unplaced_cell :: "op \<Rightarrow> 't arch_state \<Rightarrow> bool" where
  "binds_unplaced_cell (BindBel b (Some c) st) s = (bel (cells s c) = NoBel)"
| "binds_unplaced_cell x s = True"

fun cells_unplaced :: "('t :: linorder) device \<Rightarrow> op list \<Rightarrow> 't arch_state \<Rightarrow> bool" where
  "cells_unplaced d [] s = True"
| "cells_unplaced d (x # xs) s =
     (binds_unplaced_cell x s \<and>
      (case exec_op d x s of Inl e \<Rightarrow> True | Inr s' \<Rightarrow> cells_unplaced d xs s'))"

text \<open>Which resource an operation binds; \<open>bindPip\<close> binds the destination wire too.\<close>

fun binds_bel :: "op \<Rightarrow> BelId \<Rightarrow> bool" where
  "binds_bel (BindBel b cell st) b' = (b = b')"
| "binds_bel x b' = False"

fun binds_wire :: "'t device \<Rightarrow> op \<Rightarrow> WireId \<Rightarrow> bool" where
  "binds_wire d (BindWire w net st) w' = (w = w')"
| "binds_wire d (BindPip p net st) w' = (getPipDstWire d p = w')"
| "binds_wire d x w' = False"

fun binds_pip :: "op \<Rightarrow> PipId \<Rightarrow> bool" where
  "binds_pip (BindPip p net st) p' = (p = p')"
| "binds_pip x p' = False"

section \<open>Consistency of the binding maps with the netlist\<close>

text \<open>
  The owner's back-reference agrees with the map: a bound bel is its cell's current
  bel; a bound wire has an entry in its net's \<open>wires\<close>; a bound pip is recorded as the
  driver in its net's entry for the pip's destination wire.
\<close>

definition bel_cell_consistent :: "'t arch_state \<Rightarrow> bool" where
  "bel_cell_consistent s =
     (\<forall>b c. getBoundBelCell s b = Some c \<longrightarrow> bel (cells s c) = b)"

definition wire_net_consistent :: "'t arch_state \<Rightarrow> bool" where
  "wire_net_consistent s =
     (\<forall>w n. getBoundWireNet s w = Some n \<longrightarrow> wires (nets s n) w \<noteq> None)"

definition pip_net_consistent :: "'t device \<Rightarrow> 't arch_state \<Rightarrow> bool" where
  "pip_net_consistent d s =
     (\<forall>p n. getBoundPipNet s p = Some n \<longrightarrow>
        (\<exists>it. wires (nets s n) (getPipDstWire d p) = Some it \<and> pip it = p))"

text \<open>A bound pip's destination wire is bound to the pip's net.\<close>

definition pip_dst_coupled :: "'t device \<Rightarrow> 't arch_state \<Rightarrow> bool" where
  "pip_dst_coupled d s =
     (\<forall>p n. getBoundPipNet s p = Some n \<longrightarrow> getBoundWireNet s (getPipDstWire d p) = Some n)"

text \<open>
  What the routing half of the state keeps true along every run: the three properties
  above, and the default-constructed pip is never bound.
\<close>

definition route_inv :: "'t device \<Rightarrow> 't arch_state \<Rightarrow> bool" where
  "route_inv d s = (wire_net_consistent s \<and> pip_net_consistent d s \<and> pip_dst_coupled d s \<and>
     getBoundPipNet s NoPip = None)"

text \<open>The placement half: bound bels agree with their cells, and \<open>BelId()\<close> is never bound.\<close>

definition place_inv :: "'t arch_state \<Rightarrow> bool" where
  "place_inv s = (bel_cell_consistent s \<and> getBoundBelCell s NoBel = None)"

section \<open>A small device\<close>

text \<open>
  Three bels \<open>A\<close>, \<open>B\<close>, \<open>C\<close> of types LUT, LUT and FF; pip \<open>i\<close> drives wire \<open>i\<close>.
  The netlist starts with unplaced cells and unrouted nets.
\<close>

definition bel_A :: BelId where "bel_A = Bel 0"
definition bel_B :: BelId where "bel_B = Bel 1"
definition bel_C :: BelId where "bel_C = Bel 2"

definition dev3 :: "string device" where
  "dev3 =
     \<lparr>getBels = [bel_A, bel_B, bel_C],
      getBelType = (\<lambda>b. if b = bel_C then ''FF'' else ''LUT''),
      getPipDstWire = (\<lambda>p. case p of NoPip \<Rightarrow> NoWire | Pip i \<Rightarrow> Wire i)\<rparr>"

definition cells0 :: "nat \<Rightarrow> CellInfo" where
  "cells0 = (\<lambda>c. \<lparr>bel = NoBel, belStrength = STRENGTH_NONE\<rparr>)"

definition nets0 :: "nat \<Rightarrow> NetInfo" where
  "nets0 = (\<lambda>n. \<lparr>wires = Map.empty\<rparr>)"

text \<open>The state after the one cell \<open>0\<close> has been bound to bel \<open>A\<close> and then to bel \<open>B\<close>.\<close>

definition doubly_placed :: "string arch_state" where
  "doubly_placed =
     \<lparr>base_bel2cell = [bel_A \<mapsto> Some 0, bel_B \<mapsto> Some 0],
      base_wire2net = Map.empty, base_pip2net = Map.empty,
      cell_types = [], bel_buckets = [], bucket_bels = [],
      cell_types_initialised = False, bel_buckets_initialised = False,
      cells = cells0(0 := \<lparr>bel = bel_B, belStrength = STRENGTH_WEAK\<rparr>),
      nets = nets0,
      ui_log = [refreshUiBel bel_A, refreshUiBel bel_B]\<rparr>"

text \<open>
  The same three bels with \<open>IdString\<close> read as the interned index, the type LUT interned
  before the type FF, and the state that the two initialisation steps then produce.
\<close>

definition id_LUT :: nat where "id_LUT = 0"
definition id_FF :: nat where "id_FF = 1"

definition dev3_idx :: "nat device" where
  "dev3_idx =
     \<lparr>getBels = [bel_A, bel_B, bel_C],
      getBelType = (\<lambda>b. if b = bel_C then id_FF else id_LUT),
      getPipDstWire = (\<lambda>p. case p of NoPip \<Rightarrow> NoWire | Pip i \<Rightarrow> Wire i)\<rparr>"

definition indexed3 :: "nat arch_state" where
  "indexed3 =
     \<lparr>base_bel2cell = Map.empty, base_wire2net = Map.empty, base_pip2net = Map.empty,
      cell_types = [id_LUT, id_FF], bel_buckets = [id_LUT, id_FF],
      bucket_bels = [(id_LUT, [bel_A, bel_B]), (id_FF, [bel_C])],
      cell_types_initialised = True, bel_buckets_initialised = True,
      cells = cells0, nets = nets0, ui_log = []\<rparr>"

section \<open>Effects of single operations\<close>

lemma entry_of_upd [simp]: "entry_of (m(k \<mapsto> v)) k' = (if k' = k then v else entry_of m k')"
  by (simp add: entry_of_def)

lemma entry_of_empty [simp]: "entry_of Map.empty k = None"
  by (simp add: entry_of_def)

lemma getBoundBelCell_entry: "getBoundBelCell s b = entry_of (base_bel2cell s) b"
  by (simp add: getBoundBelCell_def entry_of_def)

lemma getBoundWireNet_entry: "getBoundWireNet s w = entry_of (base_wire2net s) w"
  by (simp add: getBoundWireNet_def entry_of_def)

lemma getBoundPipNet_entry: "getBoundPipNet s p = entry_of (base_pip2net s) p"
  by (simp add: getBoundPipNet_def entry_of_def)

lemmas getBound_entry = getBoundBelCell_entry getBoundWireNet_entry getBoundPipNet_entry

lemmas checkAvail_defs = checkBelAvail_def checkWireAvail_def checkPipAvail_def

section \<open>The routing invariant\<close>

lemmas route_defs = route_inv_def wire_net_consistent_def pip_net_consistent_def
  pip_dst_coupled_def getBound_entry

lemma route_inv_fresh: "route_inv d (fresh cs ns)"
  by (simp add: route_defs fresh_def)

lemma route_inv_bindBel: "route_inv d s \<Longrightarrow> bindBel b cell st s = Inr s' \<Longrightarrow> route_inv d s'"
  by (auto simp: route_defs bindBel_def split: if_splits option.splits)

lemma route_inv_unbindBel: "route_inv d s \<Longrightarrow> unbindBel b s = Inr s' \<Longrightarrow> route_inv d s'"
  by (auto simp: route_defs unbindBel_def split: if_splits option.splits)

lemma route_inv_bindWire: "route_inv d s \<Longrightarrow> bindWire w net st s = Inr s' \<Longrightarrow> route_inv d s'"
  by (auto simp: route_defs bindWire_def split: if_splits option.splits)

lemma route_inv_unbindWire:
  assumes inv: "route_inv d s" and ok: "unbindWire w s = Inr s'"
  shows "route_inv d s'"
proof -
  from ok obtain n it where n: "entry_of (base_wire2net s) w = Some n"
    and it: "wires (nets s n) w = Some it"
    by (auto simp: unbindWire_def split: if_splits option.splits)
  have driver: "\<forall>q. getPipDstWire d q = w \<and> (q \<noteq> pip it \<or> pip it = NoPip) \<longrightarrow>
      entry_of (base_pip2net s) q = None"
  proof (intro allI impI, elim conjE)
    fix q
    assume dst: "getPipDstWire d q = w" and other: "q \<noteq> pip it \<or> pip it = NoPip"
    show "entry_of (base_pip2net s) q = None"
    proof (cases "entry_of (base_pip2net s) q")
      case (Some m)
      with inv dst n have "m = n" by (auto simp: route_defs)
      with inv Some dst it have "q = pip it" by (fastforce simp: route_defs)
      moreover from inv Some have "q \<noteq> NoPip" by (auto simp: route_defs)
      ultimately show ?thesis using other by simp
    qed simp
  qed
  from ok n it have s': "s' = s\<lparr>base_pip2net :=
        (if pip it \<noteq> NoPip then (base_pip2net s)(pip it \<mapsto> None) else base_pip2net s),
      nets := (nets s)(n := (nets s n)\<lparr>wires := (wires (nets s n))(w := None)\<rparr>),
      base_wire2net := (base_wire2net s)(w \<mapsto> None),
      ui_log := ui_log s @ [refreshUiWire w]\<rparr>"
    by (simp add: unbindWire_def split: if_splits)
  have "wire_net_consistent s'"
    using inv by (auto simp: s' route_defs)
  moreover have "pip_net_consistent d s'"
    using inv driver by (auto simp: s' route_defs)
  moreover have "pip_dst_coupled d s'"
    using inv driver by (auto simp: s' route_defs)
  moreover have "getBoundPipNet s' NoPip = None"
    using inv by (simp add: s' route_defs)
  ultimately show ?thesis by (simp add: route_inv_def)
qed

lemma route_inv_bindPip:
  assumes inv: "route_inv d s" and ok: "bindPip d p net st s = Inr s'"
  shows "route_inv d s'"
proof -
  from ok have dst_free: "entry_of (base_wire2net s) (getPipDstWire d p) = None"
    by (simp add: bindPip_def Let_def split: if_splits)
  have others: "entry_of (base_pip2net s) q = None" if "getPipDstWire d q = getPipDstWire d p" for q
  proof (cases "entry_of (base_pip2net s) q")
    case (Some n)
    with inv have "entry_of (base_wire2net s) (getPipDstWire d q) = Some n"
      by (simp add: route_defs)
    with that dst_free show ?thesis by simp
  qed simp
  from inv ok others show ?thesis
    by (auto simp: route_defs bindPip_def Let_def split: if_splits option.splits)
qed

lemma bound_pips_same_dst:
  assumes inv: "route_inv d s"
    and p: "entry_of (base_pip2net s) p = Some n" and q: "entry_of (base_pip2net s) q = Some m"
    and dst: "getPipDstWire d q = getPipDstWire d p"
  shows "q = p"
proof -
  from inv p q dst have "m = n" by (simp add: route_defs) (metis option.inject)
  with inv p q dst show ?thesis by (simp add: route_defs) (metis option.inject)
qed

lemma route_inv_unbindPip:
  assumes inv: "route_inv d s" and ok: "unbindPip d p s = Inr s'"
  shows "route_inv d s'"
proof -
  from ok obtain n where p: "entry_of (base_pip2net s) p = Some n"
    by (auto simp: unbindPip_def Let_def split: if_splits option.splits)
  have others: "q = p" if "entry_of (base_pip2net s) q = Some m" "getPipDstWire d q = getPipDstWire d p" for q m
    using bound_pips_same_dst [OF inv p that] .
  from inv ok others show ?thesis
    by (auto simp: route_defs unbindPip_def Let_def split: if_splits option.splits)
qed

lemma route_inv_init_cell_types: "route_inv d s \<Longrightarrow> route_inv d (init_cell_types d s)"
  by (simp add: route_defs init_cell_types_def Let_def)

lemma route_inv_init_bel_buckets: "route_inv d s \<Longrightarrow> init_bel_buckets d s = Inr s' \<Longrightarrow> route_inv d s'"
  by (auto simp: route_defs init_bel_buckets_def Let_def split: sum.splits)

lemma route_inv_exec_op: "route_inv d s \<Longrightarrow> exec_op d x s = Inr s' \<Longrightarrow> route_inv d s'"
  by (cases x)
    (auto intro: route_inv_bindBel route_inv_unbindBel route_inv_bindWire route_inv_unbindWire
      route_inv_bindPip route_inv_unbindPip route_inv_init_cell_types route_inv_init_bel_buckets)

lemma route_inv_exec_ops: "route_inv d s \<Longrightarrow> exec_ops d xs s = Inr s' \<Longrightarrow> route_inv d s'"
proof (induction xs arbitrary: s)
  case Nil
  then show ?case by simp
next
  case (Cons x xs)
  then show ?case by (auto split: sum.splits dest: route_inv_exec_op)
qed

section \<open>The placement invariant\<close>

lemmas place_defs = place_inv_def bel_cell_consistent_def getBound_entry

lemma place_inv_fresh: "place_inv (fresh cs ns)"
  by (simp add: place_defs fresh_def)

lemma place_inv_bindBel:
  assumes inv: "place_inv s" and ok: "bindBel b cell st s = Inr s'"
    and unplaced: "binds_unplaced_cell (BindBel b cell st) s"
  shows "place_inv s'"
proof -
  from ok obtain c where c: "cell = Some c"
    by (auto simp: bindBel_def split: if_splits option.splits)
  have owns_none: "\<forall>b'. entry_of (base_bel2cell s) b' \<noteq> Some c"
  proof
    fix b'
    show "entry_of (base_bel2cell s) b' \<noteq> Some c"
    proof
      assume owned: "entry_of (base_bel2cell s) b' = Some c"
      with inv have "bel (cells s c) = b'" by (simp add: place_defs)
      with unplaced c have "b' = NoBel" by simp
      with inv owned show False by (simp add: place_defs)
    qed
  qed
  from inv ok c owns_none show ?thesis
    by (auto simp: place_defs bindBel_def split: if_splits)
qed

lemma place_inv_unbindBel:
  assumes inv: "place_inv s" and ok: "unbindBel b s = Inr s'"
  shows "place_inv s'"
proof -
  from ok obtain c where c: "entry_of (base_bel2cell s) b = Some c"
    by (auto simp: unbindBel_def split: if_splits option.splits)
  from inv c have here: "bel (cells s c) = b"
    by (simp add: place_defs)
  have sole: "\<forall>b'. b' \<noteq> b \<longrightarrow> entry_of (base_bel2cell s) b' \<noteq> Some c"
    using inv here by (auto simp: place_defs)
  from ok c have s': "s' = s\<lparr>cells := (cells s)(c := (cells s c)\<lparr>bel := NoBel, belStrength := STRENGTH_NONE\<rparr>),
      base_bel2cell := (base_bel2cell s)(b \<mapsto> None),
      ui_log := ui_log s @ [refreshUiBel b]\<rparr>"
    by (simp add: unbindBel_def split: if_splits)
  have "bel_cell_consistent s'"
    using inv sole by (auto simp: s' place_defs)
  moreover have "getBoundBelCell s' NoBel = None"
    using inv by (simp add: s' place_defs)
  ultimately show ?thesis by (simp add: place_inv_def)
qed

lemma place_inv_exec_op:
  "place_inv s \<Longrightarrow> exec_op d x s = Inr s' \<Longrightarrow> binds_unplaced_cell x s \<Longrightarrow> place_inv s'"
proof (cases x)
  case (BindBel b cell st)
  then show "place_inv s \<Longrightarrow> exec_op d x s = Inr s' \<Longrightarrow> binds_unplaced_cell x s \<Longrightarrow> place_inv s'"
    using place_inv_bindBel by auto
next
  case (UnbindBel b)
  then show "place_inv s \<Longrightarrow> exec_op d x s = Inr s' \<Longrightarrow> binds_unplaced_cell x s \<Longrightarrow> place_inv s'"
    using place_inv_unbindBel by auto
qed (auto simp: place_defs bindWire_def unbindWire_def bindPip_def unbindPip_def Let_def
      init_cell_types_def init_bel_buckets_def split: if_splits option.splits sum.splits)

lemma place_inv_exec_ops:
  "place_inv s \<Longrightarrow> exec_ops d xs s = Inr s' \<Longrightarrow> cells_unplaced d xs s \<Longrightarrow> place_inv s'"
proof (induction xs arbitrary: s)
  case Nil
  then show ?case by simp
next
  case (Cons x xs)
  then show ?case by (auto split: sum.splits dest: place_inv_exec_op)
qed

section \<open>Resources that no operation of a run binds\<close>

lemma unbound_bel_exec_op:
  "exec_op d x s = Inr s' \<Longrightarrow> \<not> binds_bel x b \<Longrightarrow> getBoundBelCell s b = None \<Longrightarrow>
     getBoundBelCell s' b = None"
  by (cases x)
    (auto simp: getBound_entry bindBel_def unbindBel_def bindWire_def unbindWire_def bindPip_def
      unbindPip_def init_cell_types_def init_bel_buckets_def Let_def
      split: if_splits option.splits sum.splits)

lemma unbound_wire_exec_op:
  "exec_op d x s = Inr s' \<Longrightarrow> \<not> binds_wire d x w \<Longrightarrow> getBoundWireNet s w = None \<Longrightarrow>
     getBoundWireNet s' w = None"
  by (cases x)
    (auto simp: getBound_entry bindBel_def unbindBel_def bindWire_def unbindWire_def bindPip_def
      unbindPip_def init_cell_types_def init_bel_buckets_def Let_def
      split: if_splits option.splits sum.splits)

lemma unbound_pip_exec_op:
  "exec_op d x s = Inr s' \<Longrightarrow> \<not> binds_pip x p \<Longrightarrow> getBoundPipNet s p = None \<Longrightarrow>
     getBoundPipNet s' p = None"
  by (cases x)
    (auto simp: getBound_entry bindBel_def unbindBel_def bindWire_def unbindWire_def bindPip_def
      unbindPip_def init_cell_types_def init_bel_buckets_def Let_def
      split: if_splits option.splits sum.splits)

lemma unbound_bel_exec_ops:
  "exec_ops d xs s = Inr s' \<Longrightarrow> \<forall>x\<in>set xs. \<not> binds_bel x b \<Longrightarrow> getBoundBelCell s b = None \<Longrightarrow>
     getBoundBelCell s' b = None"
proof (induction xs arbitrary: s)
  case Nil
  then show ?case by simp
next
  case (Cons x xs)
  from Cons.prems(1) obtain s1 where step: "exec_op d x s = Inr s1" and rest: "exec_ops d xs s1 = Inr s'"
    by (auto split: sum.splits)
  from step Cons.prems(2,3) have "getBoundBelCell s1 b = None"
    by (auto dest: unbound_bel_exec_op)
  with Cons.IH [OF rest] Cons.prems(2) show ?case by simp
qed

lemma unbound_wire_exec_ops:
  "exec_ops d xs s = Inr s' \<Longrightarrow> \<forall>x\<in>set xs. \<not> binds_wire d x w \<Longrightarrow> getBoundWireNet s w = None \<Longrightarrow>
     getBoundWireNet s' w = None"
proof (induction xs arbitrary: s)
  case Nil
  then show ?case by simp
next
  case (Cons x xs)
  from Cons.prems(1) obtain s1 where step: "exec_op d x s = Inr s1" and rest: "exec_ops d xs s1 = Inr s'"
    by (auto split: sum.splits)
  from step Cons.prems(2,3) have "getBoundWireNet s1 w = None"
    by (auto dest: unbound_wire_exec_op)
  with Cons.IH [OF rest] Cons.prems(2) show ?case by simp
qed

lemma unbound_pip_exec_ops:
  "exec_ops d xs s = Inr s' \<Longrightarrow> \<forall>x\<in>set xs. \<not> binds_pip x p \<Longrightarrow> getBoundPipNet s p = None \<Longrightarrow>
     getBoundPipNet s' p = None"
proof (induction xs arbitrary: s)
  case Nil
  then show ?case by simp
next
  case (Cons x xs)
  from Cons.prems(1) obtain s1 where step: "exec_op d x s = Inr s1" and rest: "exec_ops d xs s1 = Inr s'"
    by (auto split: sum.splits)
  from step Cons.prems(2,3) have "getBoundPipNet s1 p = None"
    by (auto dest: unbound_pip_exec_op)
  with Cons.IH [OF rest] Cons.prems(2) show ?case by simp
qed

lemma fresh_unbound:
  "getBoundBelCell (fresh cs ns) b = None" "getBoundWireNet (fresh cs ns) w = None"
  "getBoundPipNet (fresh cs ns) p = None"
  by (simp_all add: getBound_entry fresh_def)

section \<open>Evaluating runs on the small device\<close>

lemmas small_defs = fresh_def dev3_def cells0_def nets0_def bel_A_def bel_B_def bel_C_def
  bindBel_def unbindBel_def bindWire_def unbindWire_def bindPip_def unbindPip_def
  getBound_entry checkAvail_defs Let_def

section \<open>Properties of single operations\<close>

text \<open>
  Claim C2.  When a valid pip and its destination wire are both unbound, \<open>bindPip\<close>
  for a net returns; afterwards the pip and the destination wire are both bound to that
  net, and the net's \<open>wires\<close> entry for the destination wire holds the pip as driver and
  the given strength.  When the pip or its destination wire is already bound, the call
  fails an assertion, whatever the other arguments are.
\<close>

theorem bindPip_binds_pip_and_dst_wire:
  "(p \<noteq> NoPip \<and> checkPipAvail s p \<and> checkWireAvail s (getPipDstWire d p) \<longrightarrow>
     (\<exists>s'. bindPip d p (Some n) st s = Inr s' \<and>
        getBoundPipNet s' p = Some n \<and>
        getBoundWireNet s' (getPipDstWire d p) = Some n \<and>
        wires (nets s' n) (getPipDstWire d p) = Some \<lparr>pip = p, strength = st\<rparr>)) \<and>
   (\<not> checkPipAvail s p \<or> \<not> checkWireAvail s (getPipDstWire d p) \<longrightarrow>
     bindPip d p net st s = Inl assertion_failure)"
  by (simp add: bindPip_def checkAvail_defs getBound_entry Let_def)

theorem bindPip_binds_pip_and_dst_wire_witness:
  "Pip 2 \<noteq> NoPip \<and> checkPipAvail (fresh cells0 nets0 :: string arch_state) (Pip 2) \<and>
   checkWireAvail (fresh cells0 nets0 :: string arch_state) (getPipDstWire dev3 (Pip 2)) \<and>
   (\<exists>s'. bindPip dev3 (Pip 2) (Some 4) STRENGTH_STRONG (fresh cells0 nets0) = Inr s' \<and>
      getBoundPipNet s' (Pip 2) = Some 4 \<and> getBoundWireNet s' (Wire 2) = Some 4 \<and>
      wires (nets s' 4) (Wire 2) = Some \<lparr>pip = Pip 2, strength = STRENGTH_STRONG\<rparr> \<and>
      \<not> checkPipAvail s' (Pip 2) \<and>
      bindPip dev3 (Pip 2) (Some 5) STRENGTH_WEAK s' = Inl assertion_failure)"
proof -
  let ?s = "fresh cells0 nets0 :: string arch_state"
  have free: "Pip 2 \<noteq> NoPip \<and> checkPipAvail ?s (Pip 2) \<and> checkWireAvail ?s (getPipDstWire dev3 (Pip 2))"
    by (simp add: small_defs)
  have dst: "getPipDstWire dev3 (Pip 2) = Wire 2"
    by (simp add: dev3_def)
  from free bindPip_binds_pip_and_dst_wire [where p = "Pip 2" and s = ?s and d = dev3 and n = 4
      and st = STRENGTH_STRONG]
  obtain s' where s': "bindPip dev3 (Pip 2) (Some 4) STRENGTH_STRONG ?s = Inr s'"
      "getBoundPipNet s' (Pip 2) = Some 4" "getBoundWireNet s' (Wire 2) = Some 4"
      "wires (nets s' 4) (Wire 2) = Some \<lparr>pip = Pip 2, strength = STRENGTH_STRONG\<rparr>"
    unfolding dst by blast
  from s'(2) have bound: "\<not> checkPipAvail s' (Pip 2)"
    by (simp add: checkPipAvail_def)
  with bindPip_binds_pip_and_dst_wire [where p = "Pip 2" and s = s' and d = dev3
      and net = "Some 5" and st = STRENGTH_WEAK]
  have "bindPip dev3 (Pip 2) (Some 5) STRENGTH_WEAK s' = Inl assertion_failure"
    by blast
  with free s' bound show ?thesis by blast
qed

text \<open>
  Claim C3.  For a valid pip bound to a net that also owns the pip's destination wire,
  \<open>unbindPip\<close> returns; afterwards the pip is unbound, the destination wire is unbound,
  and the net's \<open>wires\<close> has no entry at all for the destination wire.
\<close>

theorem unbindPip_clears_pip_and_dst_wire:
  assumes "p \<noteq> NoPip"
    and "getBoundPipNet s p = Some n"
    and "getBoundWireNet s (getPipDstWire d p) = Some n"
  shows "\<exists>s'. unbindPip d p s = Inr s' \<and>
     getBoundPipNet s' p = None \<and> checkPipAvail s' p \<and>
     getBoundWireNet s' (getPipDstWire d p) = None \<and> checkWireAvail s' (getPipDstWire d p) \<and>
     wires (nets s' n) (getPipDstWire d p) = None"
  using assms by (simp add: unbindPip_def checkAvail_defs getBound_entry Let_def)

theorem unbindPip_clears_pip_and_dst_wire_witness:
  "\<exists>s s'. bindPip dev3 (Pip 2) (Some 4) STRENGTH_STRONG (fresh cells0 nets0) = Inr s \<and>
     wires (nets s 4) (Wire 2) = Some \<lparr>pip = Pip 2, strength = STRENGTH_STRONG\<rparr> \<and>
     unbindPip dev3 (Pip 2) s = Inr s' \<and>
     getBoundPipNet s' (Pip 2) = None \<and> getBoundWireNet s' (Wire 2) = None \<and>
     wires (nets s' 4) (Wire 2) = None"
proof -
  obtain s where s: "bindPip dev3 (Pip 2) (Some 4) STRENGTH_STRONG (fresh cells0 nets0) = Inr s"
    by (simp add: small_defs)
  have dst: "getPipDstWire dev3 (Pip 2) = Wire 2"
    by (simp add: dev3_def)
  from s have entry: "wires (nets s 4) (Wire 2) = Some \<lparr>pip = Pip 2, strength = STRENGTH_STRONG\<rparr>"
    by (auto simp: small_defs)
  have valid: "Pip 2 \<noteq> NoPip" by simp
  from s have pip_bound: "getBoundPipNet s (Pip 2) = Some 4"
    by (auto simp: small_defs)
  from s have wire_bound: "getBoundWireNet s (getPipDstWire dev3 (Pip 2)) = Some 4"
    by (auto simp: small_defs)
  from unbindPip_clears_pip_and_dst_wire [OF valid pip_bound wire_bound] s entry
  show ?thesis unfolding dst by blast
qed

text \<open>
  Claim C4.  For a valid wire bound to a net whose \<open>wires\<close> has an entry for it,
  \<open>unbindWire\<close> returns.  If the entry records a driving pip, that pip is unbound
  afterwards and no other pip's binding changes; if it records none, the pip map is
  unchanged.  The wire's entry is erased from the owning net, every other entry of every
  net stays as it was, the wire is unbound, no other wire's binding changes, and bels
  and cells are untouched.
\<close>

theorem unbindWire_cascades_to_driver:
  assumes "w \<noteq> NoWire"
    and "getBoundWireNet s w = Some n"
    and "wires (nets s n) w = Some it"
  shows "\<exists>s'. unbindWire w s = Inr s' \<and>
     (pip it \<noteq> NoPip \<longrightarrow> getBoundPipNet s' (pip it) = None \<and>
        (\<forall>q. q \<noteq> pip it \<longrightarrow> base_pip2net s' q = base_pip2net s q)) \<and>
     (pip it = NoPip \<longrightarrow> base_pip2net s' = base_pip2net s) \<and>
     wires (nets s' n) w = None \<and>
     (\<forall>m v. (m, v) \<noteq> (n, w) \<longrightarrow> wires (nets s' m) v = wires (nets s m) v) \<and>
     getBoundWireNet s' w = None \<and> checkWireAvail s' w \<and>
     (\<forall>v. v \<noteq> w \<longrightarrow> base_wire2net s' v = base_wire2net s v) \<and>
     base_bel2cell s' = base_bel2cell s \<and> cells s' = cells s"
  using assms by (simp add: unbindWire_def checkAvail_defs getBound_entry Let_def)

theorem unbindWire_cascades_to_driver_witness:
  "\<exists>s s' s''. exec_ops dev3 [BindWire (Wire 9) (Some 4) STRENGTH_WEAK,
          BindPip (Pip 2) (Some 4) STRENGTH_STRONG] (fresh cells0 nets0) = Inr s \<and>
     getBoundPipNet s (Pip 2) = Some 4 \<and>
     unbindWire (Wire 2) s = Inr s' \<and>
     getBoundPipNet s' (Pip 2) = None \<and> getBoundWireNet s' (Wire 2) = None \<and>
     wires (nets s' 4) (Wire 2) = None \<and>
     wires (nets s' 4) (Wire 9) = Some \<lparr>pip = NoPip, strength = STRENGTH_WEAK\<rparr> \<and>
     unbindWire (Wire 9) s = Inr s'' \<and>
     getBoundWireNet s'' (Wire 9) = None \<and> wires (nets s'' 4) (Wire 9) = None \<and>
     base_pip2net s'' = base_pip2net s"
proof -
  obtain s where s: "exec_ops dev3 [BindWire (Wire 9) (Some 4) STRENGTH_WEAK,
          BindPip (Pip 2) (Some 4) STRENGTH_STRONG] (fresh cells0 nets0) = Inr s"
    by (simp add: small_defs)
  have valid: "Wire 2 \<noteq> NoWire" "Wire 9 \<noteq> NoWire" by simp_all
  from s have bound: "getBoundWireNet s (Wire 2) = Some 4" "getBoundWireNet s (Wire 9) = Some 4"
    by (auto simp: small_defs)
  from s have driven: "wires (nets s 4) (Wire 2) = Some \<lparr>pip = Pip 2, strength = STRENGTH_STRONG\<rparr>"
    by (auto simp: small_defs)
  from s have plain: "wires (nets s 4) (Wire 9) = Some \<lparr>pip = NoPip, strength = STRENGTH_WEAK\<rparr>"
    by (auto simp: small_defs)
  from s have pip_bound: "getBoundPipNet s (Pip 2) = Some 4"
    by (auto simp: small_defs)
  from unbindWire_cascades_to_driver [OF valid(1) bound(1) driven]
  obtain s' where s': "unbindWire (Wire 2) s = Inr s'" "getBoundPipNet s' (Pip 2) = None"
      "wires (nets s' 4) (Wire 2) = None" "getBoundWireNet s' (Wire 2) = None"
      "wires (nets s' 4) (Wire 9) = wires (nets s 4) (Wire 9)"
    by auto
  from unbindWire_cascades_to_driver [OF valid(2) bound(2) plain]
  obtain s'' where s'': "unbindWire (Wire 9) s = Inr s''" "getBoundWireNet s'' (Wire 9) = None"
      "wires (nets s'' 4) (Wire 9) = None" "base_pip2net s'' = base_pip2net s"
    by auto
  from s pip_bound plain s' s'' show ?thesis by auto
qed

text \<open>
  Claim C5.  For a valid, unbound bel, a cell and a strength, \<open>bindBel\<close> returns;
  afterwards the bel is not available, its bound cell is the given cell, and the cell
  carries the bel and the given strength.  \<open>unbindBel\<close> on the bel then returns;
  afterwards the bel is available, it has no bound cell, and the cell's bel is
  \<open>BelId()\<close> and its strength \<open>STRENGTH_NONE\<close>.
\<close>

theorem bindBel_then_unbindBel:
  assumes "b \<noteq> NoBel" and "checkBelAvail s b"
  shows "\<exists>s1 s2. bindBel b (Some c) st s = Inr s1 \<and>
     \<not> checkBelAvail s1 b \<and> getBoundBelCell s1 b = Some c \<and>
     bel (cells s1 c) = b \<and> belStrength (cells s1 c) = st \<and>
     unbindBel b s1 = Inr s2 \<and>
     checkBelAvail s2 b \<and> getBoundBelCell s2 b = None \<and>
     bel (cells s2 c) = NoBel \<and> belStrength (cells s2 c) = STRENGTH_NONE"
  using assms by (simp add: bindBel_def unbindBel_def checkAvail_defs getBound_entry)

theorem bindBel_then_unbindBel_witness:
  "bel_A \<noteq> NoBel \<and> checkBelAvail (fresh cells0 nets0 :: string arch_state) bel_A \<and>
   (\<exists>s1 s2. bindBel bel_A (Some 3) STRENGTH_USER (fresh cells0 nets0 :: string arch_state) = Inr s1 \<and>
      \<not> checkBelAvail s1 bel_A \<and> getBoundBelCell s1 bel_A = Some 3 \<and>
      belStrength (cells s1 3) = STRENGTH_USER \<and>
      unbindBel bel_A s1 = Inr s2 \<and> checkBelAvail s2 bel_A \<and> getBoundBelCell s2 bel_A = None \<and>
      belStrength (cells s2 3) = STRENGTH_NONE)"
proof -
  have valid: "bel_A \<noteq> NoBel" by (simp add: bel_A_def)
  have free: "checkBelAvail (fresh cells0 nets0 :: string arch_state) bel_A"
    by (simp add: small_defs)
  from bindBel_then_unbindBel [OF valid free, of 3 STRENGTH_USER] valid free
  show ?thesis by blast
qed

text \<open>
  Claim C6 does not hold for pips.  On the constructed state \<open>bindPip\<close> returns and
  the observer's log is still empty, and so it is after the \<open>unbindPip\<close> that follows:
  neither function calls a \<open>refreshUi\<close> method, for the pip or for the destination wire
  it binds.  \<open>bindWire\<close> on the same wire records \<open>refreshUiWire\<close>.
\<close>

theorem bindPip_unbindPip_fire_no_notification:
  "\<exists>s1 s2 s3. bindPip dev3 (Pip 2) (Some 4) STRENGTH_STRONG (fresh cells0 nets0) = Inr s1 \<and>
     ui_log s1 = [] \<and>
     unbindPip dev3 (Pip 2) s1 = Inr s2 \<and> ui_log s2 = [] \<and>
     bindWire (Wire 2) (Some 4) STRENGTH_STRONG (fresh cells0 nets0 :: string arch_state) = Inr s3 \<and>
     ui_log s3 = [refreshUiWire (Wire 2)]"
  by (simp add: small_defs)

text \<open>
  Claim C7.  Binding a bound bel, wire or pip (or a pip whose destination wire is
  bound), unbinding an unbound bel, wire or pip, and passing the default-constructed
  handle to any of the six operations all fail an assertion.  So do \<open>getCellTypes\<close>
  (and \<open>init_bel_buckets\<close>, which calls it) before \<open>init_cell_types\<close> has set its flag,
  and \<open>getBelBuckets\<close> and \<open>getBelsInBucket\<close> before \<open>init_bel_buckets\<close> has set its
  flag.  None of them returns a state or a value.
\<close>

theorem contract_violations_are_fatal:
  "(\<not> checkBelAvail s b \<longrightarrow> bindBel b cell st s = Inl assertion_failure) \<and>
   (\<not> checkWireAvail s w \<longrightarrow> bindWire w net st s = Inl assertion_failure) \<and>
   (\<not> checkPipAvail s p \<or> \<not> checkWireAvail s (getPipDstWire d p) \<longrightarrow>
      bindPip d p net st s = Inl assertion_failure) \<and>
   (checkBelAvail s b \<longrightarrow> unbindBel b s = Inl assertion_failure) \<and>
   (checkWireAvail s w \<longrightarrow> unbindWire w s = Inl assertion_failure) \<and>
   (checkPipAvail s p \<longrightarrow> unbindPip d p s = Inl assertion_failure) \<and>
   bindBel NoBel cell st s = Inl assertion_failure \<and>
   unbindBel NoBel s = Inl assertion_failure \<and>
   bindWire NoWire net st s = Inl assertion_failure \<and>
   unbindWire NoWire s = Inl assertion_failure \<and>
   bindPip d NoPip net st s = Inl assertion_failure \<and>
   unbindPip d NoPip s = Inl assertion_failure \<and>
   (\<not> cell_types_initialised s \<longrightarrow>
      getCellTypes s = Inl assertion_failure \<and> init_bel_buckets d s = Inl assertion_failure) \<and>
   (\<not> bel_buckets_initialised s \<longrightarrow>
      getBelBuckets s = Inl assertion_failure \<and> getBelsInBucket s bucket = Inl assertion_failure)"
  by (simp add: bindBel_def unbindBel_def bindWire_def unbindWire_def bindPip_def unbindPip_def
      getCellTypes_def getBelBuckets_def getBelsInBucket_def init_bel_buckets_def
      checkAvail_defs getBound_entry Let_def split: option.splits)

theorem contract_violations_are_fatal_witness:
  "\<exists>s. exec_ops dev3 [BindBel bel_A (Some 0) STRENGTH_WEAK, BindWire (Wire 9) (Some 4) STRENGTH_WEAK,
          BindPip (Pip 2) (Some 4) STRENGTH_STRONG] (fresh cells0 nets0) = Inr s \<and>
     \<not> checkBelAvail s bel_A \<and> bindBel bel_A (Some 1) STRENGTH_WEAK s = Inl assertion_failure \<and>
     \<not> checkWireAvail s (Wire 9) \<and> bindWire (Wire 9) (Some 5) STRENGTH_WEAK s = Inl assertion_failure \<and>
     \<not> checkPipAvail s (Pip 2) \<and> bindPip dev3 (Pip 2) (Some 5) STRENGTH_WEAK s = Inl assertion_failure \<and>
     checkBelAvail s bel_B \<and> unbindBel bel_B s = Inl assertion_failure \<and>
     checkWireAvail s (Wire 1) \<and> unbindWire (Wire 1) s = Inl assertion_failure \<and>
     checkPipAvail s (Pip 1) \<and> unbindPip dev3 (Pip 1) s = Inl assertion_failure \<and>
     \<not> cell_types_initialised s \<and> getCellTypes s = Inl assertion_failure \<and>
     \<not> bel_buckets_initialised s \<and> getBelBuckets s = Inl assertion_failure \<and>
     getBelsInBucket s ''LUT'' = Inl assertion_failure"
proof -
  obtain s where s: "exec_ops dev3 [BindBel bel_A (Some 0) STRENGTH_WEAK,
      BindWire (Wire 9) (Some 4) STRENGTH_WEAK,
      BindPip (Pip 2) (Some 4) STRENGTH_STRONG] (fresh cells0 nets0) = Inr s"
    by (simp add: small_defs)
  from s have bound: "\<not> checkBelAvail s bel_A" "\<not> checkWireAvail s (Wire 9)" "\<not> checkPipAvail s (Pip 2)"
    by (auto simp: small_defs)
  from s have free: "checkBelAvail s bel_B" "checkWireAvail s (Wire 1)" "checkPipAvail s (Pip 1)"
    by (auto simp: small_defs)
  from s have flags: "\<not> cell_types_initialised s" "\<not> bel_buckets_initialised s"
    by (auto simp: small_defs)
  from bound flags
    contract_violations_are_fatal [where s = s and b = bel_A and w = "Wire 9" and p = "Pip 2"
      and d = dev3 and cell = "Some 1" and net = "Some 5" and st = STRENGTH_WEAK
      and bucket = "''LUT''"]
  have fatal_bind: "bindBel bel_A (Some 1) STRENGTH_WEAK s = Inl assertion_failure"
      "bindWire (Wire 9) (Some 5) STRENGTH_WEAK s = Inl assertion_failure"
      "bindPip dev3 (Pip 2) (Some 5) STRENGTH_WEAK s = Inl assertion_failure"
      "getCellTypes s = Inl assertion_failure" "getBelBuckets s = Inl assertion_failure"
      "getBelsInBucket s ''LUT'' = Inl assertion_failure"
    by blast+
  from free
    contract_violations_are_fatal [where s = s and b = bel_B and w = "Wire 1" and p = "Pip 1"
      and d = dev3]
  have fatal_unbind: "unbindBel bel_B s = Inl assertion_failure"
      "unbindWire (Wire 1) s = Inl assertion_failure"
      "unbindPip dev3 (Pip 1) s = Inl assertion_failure"
    by blast+
  from s bound free flags fatal_bind fatal_unbind show ?thesis by blast
qed

section \<open>Properties of runs from the constructed state\<close>

text \<open>
  Claim C1, as amended.  Take any run from the constructed state in which every
  operation returns and in which every \<open>bindBel\<close> is given a cell whose current
  \<open>bel\<close> field is \<open>BelId()\<close>.  In the state it reaches the three binding maps agree
  with the owners' back-references: a bound bel is the current bel of its cell, a
  bound wire has an entry in its net's \<open>wires\<close>, a bound pip is the driver recorded in
  its net's entry for the pip's destination wire; no cell owns two bels, and no wire is
  the destination of two bound pips.  That a resource has at most one owner is built
  into the getters, which are functions.
\<close>

theorem binding_maps_consistent:
  assumes run: "exec_ops d xs (fresh cs ns) = Inr s"
    and unplaced: "cells_unplaced d xs (fresh cs ns)"
  shows "bel_cell_consistent s \<and> wire_net_consistent s \<and> pip_net_consistent d s \<and>
    (\<forall>b b' c. getBoundBelCell s b = Some c \<and> getBoundBelCell s b' = Some c \<longrightarrow> b = b') \<and>
    (\<forall>p q n m. getBoundPipNet s p = Some n \<and> getBoundPipNet s q = Some m \<and>
       getPipDstWire d q = getPipDstWire d p \<longrightarrow> q = p)"
proof -
  have place: "place_inv s"
    using place_inv_fresh run unplaced by (rule place_inv_exec_ops)
  have route: "route_inv d s"
    using route_inv_fresh run by (rule route_inv_exec_ops)
  from place have one_bel: "\<forall>b b' c. getBoundBelCell s b = Some c \<and> getBoundBelCell s b' = Some c \<longrightarrow> b = b'"
    by (auto simp: place_inv_def bel_cell_consistent_def)
  have one_driver: "\<forall>p q n m. getBoundPipNet s p = Some n \<and> getBoundPipNet s q = Some m \<and>
       getPipDstWire d q = getPipDstWire d p \<longrightarrow> q = p"
    using bound_pips_same_dst [OF route] by (auto simp: getBound_entry)
  from place route one_bel one_driver show ?thesis
    by (simp add: place_inv_def route_inv_def)
qed

theorem binding_maps_consistent_witness:
  "\<exists>s. exec_ops dev3 [BindBel bel_A (Some 0) STRENGTH_WEAK, UnbindBel bel_A,
          BindBel bel_B (Some 0) STRENGTH_USER, BindWire (Wire 7) (Some 1) STRENGTH_WEAK,
          BindPip (Pip 3) (Some 1) STRENGTH_STRONG] (fresh cells0 nets0) = Inr s \<and>
     getBoundBelCell s bel_B = Some 0 \<and> bel (cells s 0) = bel_B \<and>
     bel_cell_consistent s \<and> wire_net_consistent s \<and> pip_net_consistent dev3 s"
proof -
  let ?xs = "[BindBel bel_A (Some 0) STRENGTH_WEAK, UnbindBel bel_A,
          BindBel bel_B (Some 0) STRENGTH_USER, BindWire (Wire 7) (Some 1) STRENGTH_WEAK,
          BindPip (Pip 3) (Some 1) STRENGTH_STRONG]"
  obtain s where run: "exec_ops dev3 ?xs (fresh cells0 nets0) = Inr s"
    by (simp add: small_defs)
  have unplaced: "cells_unplaced dev3 ?xs (fresh cells0 nets0)"
    by (simp add: small_defs)
  from run have "getBoundBelCell s bel_B = Some 0 \<and> bel (cells s 0) = bel_B"
    by (auto simp: small_defs)
  with binding_maps_consistent [OF run unplaced] run show ?thesis
    by blast
qed

text \<open>
  Claim C1 as stated, with only the preconditions of the operations themselves (a valid,
  unbound bel), fails: \<open>bindBel\<close> never looks at the cell, so one cell can be bound to
  bel \<open>A\<close> and then to bel \<open>B\<close>.  Both calls return; afterwards bel \<open>A\<close> is still
  owned by the cell, whose current bel is \<open>B\<close>.
\<close>

theorem rebinding_a_placed_cell_breaks_consistency:
  "exec_ops dev3 [BindBel bel_A (Some 0) STRENGTH_WEAK, BindBel bel_B (Some 0) STRENGTH_WEAK]
       (fresh cells0 nets0) = Inr doubly_placed \<and>
   getBoundBelCell doubly_placed bel_A = Some 0 \<and> bel (cells doubly_placed 0) = bel_B \<and>
   bel_A \<noteq> bel_B \<and> \<not> bel_cell_consistent doubly_placed"
proof -
  have run: "exec_ops dev3 [BindBel bel_A (Some 0) STRENGTH_WEAK, BindBel bel_B (Some 0) STRENGTH_WEAK]
       (fresh cells0 nets0) = Inr doubly_placed"
    by (simp add: small_defs doubly_placed_def)
  have owner: "getBoundBelCell doubly_placed bel_A = Some 0"
    by (simp add: small_defs doubly_placed_def)
  have cur: "bel (cells doubly_placed 0) = bel_B"
    by (simp add: doubly_placed_def)
  have ne: "bel_A \<noteq> bel_B"
    by (simp add: bel_A_def bel_B_def)
  from owner cur ne have "\<not> bel_cell_consistent doubly_placed"
    unfolding bel_cell_consistent_def by (metis)
  with run owner cur ne show ?thesis by simp
qed

text \<open>
  Claim C8.  In every state reached from the constructed state by a run in which every
  operation returns, a pip that is bound to a net has its destination wire bound to the
  same net.  The run may contain any of the operations, \<open>unbindWire\<close> on a destination
  wire included: that one clears the driving pip as well.
\<close>

theorem bound_pip_dst_wire_same_net:
  assumes run: "exec_ops d xs (fresh cs ns) = Inr s"
    and bound: "getBoundPipNet s p = Some n"
  shows "getBoundWireNet s (getPipDstWire d p) = Some n"
proof -
  have "route_inv d s"
    using route_inv_fresh run by (rule route_inv_exec_ops)
  with bound show ?thesis
    by (simp add: route_inv_def pip_dst_coupled_def)
qed

theorem bound_pip_dst_wire_same_net_witness:
  "\<exists>s. exec_ops dev3 [BindWire (Wire 5) (Some 1) STRENGTH_WEAK,
          BindPip (Pip 0) (Some 0) STRENGTH_STRONG, BindPip (Pip 1) (Some 0) STRENGTH_STRONG,
          UnbindWire (Wire 1)] (fresh cells0 nets0) = Inr s \<and>
     getBoundPipNet s (Pip 0) = Some 0 \<and> getBoundPipNet s (Pip 1) = None \<and>
     getBoundWireNet s (getPipDstWire dev3 (Pip 0)) = Some 0"
proof -
  let ?xs = "[BindWire (Wire 5) (Some 1) STRENGTH_WEAK,
          BindPip (Pip 0) (Some 0) STRENGTH_STRONG, BindPip (Pip 1) (Some 0) STRENGTH_STRONG,
          UnbindWire (Wire 1)]"
  obtain s where run: "exec_ops dev3 ?xs (fresh cells0 nets0) = Inr s"
    by (simp add: small_defs)
  from run have bound: "getBoundPipNet s (Pip 0) = Some 0" and cleared: "getBoundPipNet s (Pip 1) = None"
    by (auto simp: small_defs)
  from bound_pip_dst_wire_same_net [OF run bound] run bound cleared show ?thesis
    by blast
qed

text \<open>
  Claim C10.  On the constructed state, before any index initialisation, every bel,
  wire and pip is reported unbound and available.  The same holds after any run for a
  resource that no operation of the run has bound (a wire is also bound by \<open>bindPip\<close>
  on a pip that drives it), whether or not the run initialised the indices.  The six
  queries return plain values: they have no failing branch and read neither flag.
\<close>

theorem never_bound_queries:
  fixes d :: "('t :: linorder) device" and s s0 :: "'t arch_state"
  assumes s0: "s0 = fresh cs ns"
  shows "getBoundBelCell s0 b = None \<and> checkBelAvail s0 b \<and>
   getBoundWireNet s0 w = None \<and> checkWireAvail s0 w \<and>
   getBoundPipNet s0 p = None \<and> checkPipAvail s0 p \<and>
   (exec_ops d xs s0 = Inr s \<longrightarrow>
     ((\<forall>x\<in>set xs. \<not> binds_bel x b) \<longrightarrow> getBoundBelCell s b = None \<and> checkBelAvail s b) \<and>
     ((\<forall>x\<in>set xs. \<not> binds_wire d x w) \<longrightarrow> getBoundWireNet s w = None \<and> checkWireAvail s w) \<and>
     ((\<forall>x\<in>set xs. \<not> binds_pip x p) \<longrightarrow> getBoundPipNet s p = None \<and> checkPipAvail s p))"
proof -
  have start: "getBoundBelCell s0 b = None" "getBoundWireNet s0 w = None"
      "getBoundPipNet s0 p = None"
    unfolding s0 by (rule fresh_unbound)+
  have after: "((\<forall>x\<in>set xs. \<not> binds_bel x b) \<longrightarrow> getBoundBelCell s b = None) \<and>
      ((\<forall>x\<in>set xs. \<not> binds_wire d x w) \<longrightarrow> getBoundWireNet s w = None) \<and>
      ((\<forall>x\<in>set xs. \<not> binds_pip x p) \<longrightarrow> getBoundPipNet s p = None)"
    if run: "exec_ops d xs s0 = Inr s"
    using unbound_bel_exec_ops [OF run _ start(1)] unbound_wire_exec_ops [OF run _ start(2)]
      unbound_pip_exec_ops [OF run _ start(3)]
    by blast
  from start after show ?thesis
    unfolding checkAvail_defs by blast
qed

theorem never_bound_queries_witness:
  "\<exists>s. exec_ops dev3 [BindBel bel_A (Some 0) STRENGTH_WEAK, BindPip (Pip 1) (Some 0) STRENGTH_WEAK,
          InitCellTypes] (fresh cells0 nets0) = Inr s \<and>
     getBoundBelCell s bel_B = None \<and> checkBelAvail s bel_B \<and>
     getBoundWireNet s (Wire 0) = None \<and> checkWireAvail s (Wire 0) \<and>
     getBoundPipNet s (Pip 0) = None \<and> checkPipAvail s (Pip 0)"
proof -
  let ?xs = "[BindBel bel_A (Some 0) STRENGTH_WEAK, BindPip (Pip 1) (Some 0) STRENGTH_WEAK,
          InitCellTypes]"
  obtain s where run: "exec_ops dev3 ?xs (fresh cells0 nets0) = Inr s"
    by (simp add: small_defs)
  have b: "\<forall>x\<in>set ?xs. \<not> binds_bel x bel_B"
    by (simp add: bel_A_def bel_B_def)
  have w: "\<forall>x\<in>set ?xs. \<not> binds_wire dev3 x (Wire 0)"
    by (simp add: dev3_def)
  have p: "\<forall>x\<in>set ?xs. \<not> binds_pip x (Pip 0)"
    by simp
  from never_bound_queries [OF refl, where d = dev3 and xs = ?xs and cs = cells0 and ns = nets0
      and s = s and b = bel_B and w = "Wire 0" and p = "Pip 0"] b w p run
  show ?thesis by blast
qed

section \<open>The indices after initialisation\<close>

lemma set_fold_insert:
  "set (fold (\<lambda>b acc. List.insert (f b) acc) bs acc) = f ` set bs \<union> set acc"
  by (induction bs arbitrary: acc) auto

lemma distinct_fold_insert:
  "distinct acc \<Longrightarrow> distinct (fold (\<lambda>b acc. List.insert (f b) acc) bs acc)"
  by (induction bs arbitrary: acc) auto

lemma keys_fold_create:
  "fst ` set (fold (\<lambda>k m. AList.map_default (g k) [] (\<lambda>v. v) m) ks m) = g ` set ks \<union> fst ` set m"
  by (induction ks arbitrary: m) (auto simp: dom_map_default)

lemma keys_fold_push:
  "fst ` set (fold (\<lambda>b m. AList.map_default (g b) [b] (\<lambda>v. v @ [b]) m) bs m) = g ` set bs \<union> fst ` set m"
  by (induction bs arbitrary: m) (auto simp: dom_map_default)

lemma distinct_fold_create:
  "distinct (map fst m) \<Longrightarrow>
     distinct (map fst (fold (\<lambda>k m. AList.map_default (g k) [] (\<lambda>v. v) m) ks m))"
  by (induction ks arbitrary: m) (auto simp: distinct_map_default)

lemma distinct_fold_push:
  "distinct (map fst m) \<Longrightarrow>
     distinct (map fst (fold (\<lambda>b m. AList.map_default (g b) [b] (\<lambda>v. v @ [b]) m) bs m))"
  by (induction bs arbitrary: m) (auto simp: distinct_map_default)

lemma mset_buckets_create:
  "mset (concat (map snd (AList.map_default k [] (\<lambda>v. v) m))) = mset (concat (map snd m))"
  by (induction m) auto

lemma mset_buckets_push:
  "mset (concat (map snd (AList.map_default k [b] (\<lambda>v. v @ [b]) m))) =
     add_mset b (mset (concat (map snd m)))"
  by (induction m) auto

lemma mset_buckets_fold_create:
  "mset (concat (map snd (fold (\<lambda>k m. AList.map_default (g k) [] (\<lambda>v. v) m) ks m))) =
     mset (concat (map snd m))"
  by (induction ks arbitrary: m) (auto simp: mset_buckets_create)

lemma mset_buckets_fold_push:
  "mset (concat (map snd (fold (\<lambda>b m. AList.map_default (g b) [b] (\<lambda>v. v @ [b]) m) bs m))) =
     mset bs + mset (concat (map snd m))"
  by (induction bs arbitrary: m) (auto simp: mset_buckets_push)

lemma map_of_fold_push:
  "map_of (fold (\<lambda>b m. AList.map_default (g b) [b] (\<lambda>v. v @ [b]) m) bs m) k =
     (if k \<in> g ` set bs \<or> map_of m k \<noteq> None
      then Some ((case map_of m k of None \<Rightarrow> [] | Some v \<Rightarrow> v) @ filter (\<lambda>b. g b = k) bs)
      else None)"
proof (induction bs arbitrary: m)
  case Nil
  then show ?case
    by (auto split: option.splits)
next
  case (Cons b bs)
  then show ?case
    by (auto simp: map_of_map_default split: option.splits)
qed

lemma map_of_fold_create:
  "map_of (fold (\<lambda>k m. AList.map_default (g k) [] (\<lambda>v. v) m) ks m) k =
     (if k \<in> g ` set ks \<or> map_of m k \<noteq> None
      then Some (case map_of m k of None \<Rightarrow> [] | Some v \<Rightarrow> v)
      else None)"
proof (induction ks arbitrary: m)
  case Nil
  then show ?case
    by (auto split: option.splits)
next
  case (Cons b bs)
  then show ?case
    by (auto simp: map_of_map_default split: option.splits)
qed

lemma lookup_all_keys:
  "distinct (map fst m) \<Longrightarrow> map (\<lambda>k. the (map_of m k)) (map fst m) = map snd m"
  by (induction m) (auto simp: image_iff)

lemma mset_concat_map_cong:
  "mset ks = mset ks' \<Longrightarrow> mset (concat (map f ks)) = mset (concat (map f ks'))"
proof -
  assume eq: "mset ks = mset ks'"
  have "mset (concat (map f ks)) = (\<Sum>k\<in>#mset ks. mset (f k))" for ks :: "'a list"
    by (induction ks) auto
  with eq show ?thesis by simp
qed


lemmas bucket_name_defs = getBelBucketForBel_def getBelBucketForCellType_def
  getBelBucketByName_def bbid_from_name_def

text \<open>
  Claim C9, as amended.  Start from a state whose three index members are still empty,
  as the constructor leaves them, and run \<open>init_cell_types\<close> and then
  \<open>init_bel_buckets\<close>.  Both return.  \<open>getCellTypes\<close> then answers a sorted,
  duplicate-free list of exactly the bel types of the device; \<open>getBelBuckets\<close> answers a
  sorted, duplicate-free list; \<open>getBelsInBucket\<close> returns for every one of these buckets,
  and the bucket lists put together hold every bel of \<open>getBels\<close> as often as \<open>getBels\<close>
  does, so exactly once when \<open>getBels\<close> has no repetition; each bucket is the bels of its
  type in the order of \<open>getBels\<close>.  For the device whose bels are enumerated as \<open>A\<close>,
  \<open>B\<close> of type LUT and \<open>C\<close> of type FF, bucket FF is \<open>[C]\<close> and bucket LUT is
  \<open>[A, B]\<close>; the cell types and the bucket ids are \<open>[FF, LUT]\<close> when FF precedes LUT in
  the order of \<open>IdString\<close>, and \<open>[LUT, FF]\<close> when LUT precedes FF.
\<close>

theorem cell_types_and_buckets_after_init:
  fixes d :: "('t :: linorder) device"
  assumes empty: "cell_types s = []" "bel_buckets s = []" "bucket_bels s = []"
  shows "\<exists>s2 ls. init_bel_buckets d (init_cell_types d s) = Inr s2 \<and>
     getCellTypes s2 = Inr (cell_types s2) \<and>
     sorted (cell_types s2) \<and> distinct (cell_types s2) \<and>
     set (cell_types s2) = getBelType d ` set (getBels d) \<and>
     getBelBuckets s2 = Inr (bel_buckets s2) \<and>
     sorted (bel_buckets s2) \<and> distinct (bel_buckets s2) \<and>
     map (getBelsInBucket s2) (bel_buckets s2) = map Inr ls \<and>
     mset (concat ls) = mset (getBels d) \<and>
     (distinct (getBels d) \<longrightarrow> distinct (concat ls)) \<and>
     (\<forall>k\<in>set (bel_buckets s2).
        getBelsInBucket s2 k = Inr (filter (\<lambda>b. getBelType d b = k) (getBels d))) \<and>
     (FF < LUT \<and> getBels d = [A, B, C] \<and>
      getBelType d A = LUT \<and> getBelType d B = LUT \<and> getBelType d C = FF \<longrightarrow>
        getCellTypes s2 = Inr [FF, LUT] \<and> getBelBuckets s2 = Inr [FF, LUT] \<and>
        getBelsInBucket s2 FF = Inr [C] \<and> getBelsInBucket s2 LUT = Inr [A, B]) \<and>
     (LUT < FF \<and> getBels d = [A, B, C] \<and>
      getBelType d A = LUT \<and> getBelType d B = LUT \<and> getBelType d C = FF \<longrightarrow>
        getCellTypes s2 = Inr [LUT, FF] \<and> getBelBuckets s2 = Inr [LUT, FF] \<and>
        getBelsInBucket s2 FF = Inr [C] \<and> getBelsInBucket s2 LUT = Inr [A, B])"
proof -
  define bel_types where "bel_types = fold (\<lambda>b acc. List.insert (getBelType d b) acc) (getBels d) []"
  define bb1 where "bb1 = fold (\<lambda>cell_type m.
      AList.map_default (getBelBucketForCellType cell_type) [] (\<lambda>v. v) m) (sort bel_types)
      ([] :: ('t \<times> BelId list) list)"
  define bb2 where "bb2 = fold (\<lambda>b m.
      AList.map_default (getBelBucketForBel d b) [b] (\<lambda>v. v @ [b]) m) (getBels d) bb1"
  define s2 where "s2 = s\<lparr>cell_types := sort bel_types, cell_types_initialised := True,
      bucket_bels := bb2, bel_buckets := sort (map fst bb2), bel_buckets_initialised := True\<rparr>"
  define ls where "ls = map (\<lambda>k. the (map_of bb2 k)) (sort (map fst bb2))"
  have run: "init_bel_buckets d (init_cell_types d s) = Inr s2"
    by (simp add: init_bel_buckets_def init_cell_types_def getCellTypes_def Let_def empty
        s2_def bb2_def bb1_def bel_types_def)
  have types: "set bel_types = getBelType d ` set (getBels d)" "distinct bel_types"
    by (simp_all add: bel_types_def set_fold_insert distinct_fold_insert)
  have keys_distinct: "distinct (map fst bb2)"
    by (simp add: bb2_def bb1_def distinct_fold_push distinct_fold_create)
  have keys: "fst ` set bb2 = getBelType d ` set (getBels d)"
    by (auto simp: bb2_def bb1_def keys_fold_push keys_fold_create types bucket_name_defs)
  have bucket: "map_of bb2 k = Some (filter (\<lambda>b. getBelType d b = k) (getBels d))"
    if "k \<in> fst ` set bb2" for k
  proof -
    have "map_of bb1 k = None \<or> map_of bb1 k = Some []"
      by (simp add: bb1_def map_of_fold_create)
    moreover from that keys have "k \<in> getBelType d ` set (getBels d)"
      by simp
    ultimately show ?thesis
      by (auto simp: bb2_def map_of_fold_push bucket_name_defs)
  qed
  have lookup: "getBelsInBucket s2 k = Inr (the (map_of bb2 k))" if "k \<in> fst ` set bb2" for k
    using bucket [OF that] by (simp add: getBelsInBucket_def s2_def)
  have all_buckets: "map (getBelsInBucket s2) (bel_buckets s2) = map Inr ls"
    using lookup by (simp add: s2_def ls_def)
  have "mset (concat ls) = mset (concat (map (\<lambda>k. the (map_of bb2 k)) (map fst bb2)))"
    unfolding ls_def by (rule mset_concat_map_cong) simp
  also have "\<dots> = mset (concat (map snd bb2))"
    using keys_distinct by (simp only: lookup_all_keys)
  also have "\<dots> = mset (getBels d)"
    by (simp add: bb2_def bb1_def mset_buckets_fold_push mset_buckets_fold_create)
  finally have union: "mset (concat ls) = mset (getBels d)" .
  have once: "distinct (getBels d) \<longrightarrow> distinct (concat ls)"
    using union by (auto dest: mset_eq_imp_distinct_iff)
  have by_type: "\<forall>k\<in>set (bel_buckets s2).
      getBelsInBucket s2 k = Inr (filter (\<lambda>b. getBelType d b = k) (getBels d))"
    using lookup bucket by (simp add: s2_def)
  have scenario: "getCellTypes s2 = Inr [FF, LUT] \<and> getBelBuckets s2 = Inr [FF, LUT] \<and>
      getBelsInBucket s2 FF = Inr [C] \<and> getBelsInBucket s2 LUT = Inr [A, B]"
    if "FF < LUT" "getBels d = [A, B, C]" "getBelType d A = LUT" "getBelType d B = LUT"
      "getBelType d C = FF"
  proof -
    from that have ne: "FF \<noteq> LUT" "LUT \<noteq> FF" "\<not> LUT \<le> FF" by auto
    from that ne have bt: "sort bel_types = [FF, LUT]"
      by (simp add: bel_types_def)
    from that ne bt have bb: "bb2 = [(FF, [C]), (LUT, [A, B])]"
      by (simp add: bb2_def bb1_def bucket_name_defs)
    from that ne show ?thesis
      by (simp add: s2_def bt bb getCellTypes_def getBelBuckets_def getBelsInBucket_def)
  qed
  have other_order: "getCellTypes s2 = Inr [LUT, FF] \<and> getBelBuckets s2 = Inr [LUT, FF] \<and>
      getBelsInBucket s2 FF = Inr [C] \<and> getBelsInBucket s2 LUT = Inr [A, B]"
    if "LUT < FF" "getBels d = [A, B, C]" "getBelType d A = LUT" "getBelType d B = LUT"
      "getBelType d C = FF"
  proof -
    from that have ne: "FF \<noteq> LUT" "LUT \<noteq> FF" "\<not> FF \<le> LUT" "LUT \<le> FF" by auto
    from that ne have bt: "sort bel_types = [LUT, FF]"
      by (simp add: bel_types_def)
    from that ne bt have bb: "bb2 = [(LUT, [A, B]), (FF, [C])]"
      by (simp add: bb2_def bb1_def bucket_name_defs)
    from that ne show ?thesis
      by (simp add: s2_def bt bb getCellTypes_def getBelBuckets_def getBelsInBucket_def)
  qed
  have "getCellTypes s2 = Inr (cell_types s2)" "getBelBuckets s2 = Inr (bel_buckets s2)"
    by (simp_all add: s2_def getCellTypes_def getBelBuckets_def)
  moreover have "sorted (cell_types s2)" "distinct (cell_types s2)"
      "set (cell_types s2) = getBelType d ` set (getBels d)"
    using types by (simp_all add: s2_def)
  moreover have "sorted (bel_buckets s2)" "distinct (bel_buckets s2)"
    using keys_distinct by (simp_all add: s2_def)
  ultimately show ?thesis
    using run all_buckets union once by_type scenario other_order by blast
qed


theorem cell_types_and_buckets_after_init_witness:
  "''FF'' < ''LUT'' \<and> getBels dev3 = [bel_A, bel_B, bel_C] \<and>
   getBelType dev3 bel_A = ''LUT'' \<and> getBelType dev3 bel_B = ''LUT'' \<and>
   getBelType dev3 bel_C = ''FF'' \<and> distinct (getBels dev3) \<and>
   (\<exists>s2. init_bel_buckets dev3 (init_cell_types dev3 (fresh cells0 nets0)) = Inr s2 \<and>
      getCellTypes s2 = Inr [''FF'', ''LUT''] \<and> getBelBuckets s2 = Inr [''FF'', ''LUT''] \<and>
      getBelsInBucket s2 ''FF'' = Inr [bel_C] \<and> getBelsInBucket s2 ''LUT'' = Inr [bel_A, bel_B] \<and>
      sorted (cell_types s2) \<and> distinct (cell_types s2) \<and>
      sorted (bel_buckets s2) \<and> distinct (bel_buckets s2)) \<and>
   id_LUT < id_FF \<and> getBels dev3_idx = [bel_A, bel_B, bel_C] \<and>
   getBelType dev3_idx bel_A = id_LUT \<and> getBelType dev3_idx bel_B = id_LUT \<and>
   getBelType dev3_idx bel_C = id_FF \<and>
   (\<exists>s2. init_bel_buckets dev3_idx (init_cell_types dev3_idx (fresh cells0 nets0)) = Inr s2 \<and>
      getCellTypes s2 = Inr [id_LUT, id_FF] \<and> getBelBuckets s2 = Inr [id_LUT, id_FF] \<and>
      getBelsInBucket s2 id_FF = Inr [bel_C] \<and> getBelsInBucket s2 id_LUT = Inr [bel_A, bel_B])"
proof -
  have order: "''FF'' < ''LUT''"
    by (simp add: less_char_def)
  have device: "getBels dev3 = [bel_A, bel_B, bel_C]" "getBelType dev3 bel_A = ''LUT''"
      "getBelType dev3 bel_B = ''LUT''" "getBelType dev3 bel_C = ''FF''" "distinct (getBels dev3)"
    by (simp_all add: dev3_def bel_A_def bel_B_def bel_C_def)
  have empty: "cell_types (fresh cells0 nets0 :: string arch_state) = []"
      "bel_buckets (fresh cells0 nets0 :: string arch_state) = []"
      "bucket_bels (fresh cells0 nets0 :: string arch_state) = []"
    by (simp_all add: fresh_def)
  from cell_types_and_buckets_after_init [OF empty, where d = dev3 and FF = "''FF''"
      and LUT = "''LUT''" and A = bel_A and B = bel_B and C = bel_C] order device
  have by_name: "\<exists>s2. init_bel_buckets dev3 (init_cell_types dev3 (fresh cells0 nets0)) = Inr s2 \<and>
      getCellTypes s2 = Inr [''FF'', ''LUT''] \<and> getBelBuckets s2 = Inr [''FF'', ''LUT''] \<and>
      getBelsInBucket s2 ''FF'' = Inr [bel_C] \<and> getBelsInBucket s2 ''LUT'' = Inr [bel_A, bel_B] \<and>
      sorted (cell_types s2) \<and> distinct (cell_types s2) \<and>
      sorted (bel_buckets s2) \<and> distinct (bel_buckets s2)"
    by blast
  have order_idx: "id_LUT < id_FF"
    by (simp add: id_LUT_def id_FF_def)
  have device_idx: "getBels dev3_idx = [bel_A, bel_B, bel_C]" "getBelType dev3_idx bel_A = id_LUT"
      "getBelType dev3_idx bel_B = id_LUT" "getBelType dev3_idx bel_C = id_FF"
    by (simp_all add: dev3_idx_def bel_A_def bel_B_def bel_C_def)
  have empty_idx: "cell_types (fresh cells0 nets0 :: nat arch_state) = []"
      "bel_buckets (fresh cells0 nets0 :: nat arch_state) = []"
      "bucket_bels (fresh cells0 nets0 :: nat arch_state) = []"
    by (simp_all add: fresh_def)
  from cell_types_and_buckets_after_init [OF empty_idx, where d = dev3_idx and FF = id_FF
      and LUT = id_LUT and A = bel_A and B = bel_B and C = bel_C] order_idx device_idx
  have by_index: "\<exists>s2. init_bel_buckets dev3_idx (init_cell_types dev3_idx (fresh cells0 nets0)) = Inr s2 \<and>
      getCellTypes s2 = Inr [id_LUT, id_FF] \<and> getBelBuckets s2 = Inr [id_LUT, id_FF] \<and>
      getBelsInBucket s2 id_FF = Inr [bel_C] \<and> getBelsInBucket s2 id_LUT = Inr [bel_A, bel_B]"
    by blast
  from order device by_name order_idx device_idx by_index show ?thesis
    by simp
qed

text \<open>
  Claim C9 as stated gives the cell types of this device as \<open>[FF, LUT]\<close> without any
  condition.  \<open>std::sort\<close> orders \<open>IdString\<close> values, not their spellings: on the
  device where LUT is interned before FF the two initialisation steps return, and the
  cell types and the bucket ids are \<open>[LUT, FF]\<close>.
\<close>

theorem cell_types_follow_the_IdString_order:
  "init_bel_buckets dev3_idx (init_cell_types dev3_idx (fresh cells0 nets0)) = Inr indexed3 \<and>
   getBelType dev3_idx bel_A = id_LUT \<and> getBelType dev3_idx bel_B = id_LUT \<and>
   getBelType dev3_idx bel_C = id_FF \<and>
   getCellTypes indexed3 = Inr [id_LUT, id_FF] \<and>
   getCellTypes indexed3 \<noteq> Inr [id_FF, id_LUT] \<and>
   getBelBuckets indexed3 = Inr [id_LUT, id_FF] \<and>
   getBelsInBucket indexed3 id_FF = Inr [bel_C] \<and>
   getBelsInBucket indexed3 id_LUT = Inr [bel_A, bel_B]"
proof -
  have run: "init_bel_buckets dev3_idx (init_cell_types dev3_idx (fresh cells0 nets0)) = Inr indexed3"
    by (simp add: init_bel_buckets_def init_cell_types_def getCellTypes_def Let_def fresh_def
        dev3_idx_def indexed3_def id_LUT_def id_FF_def bel_A_def bel_B_def bel_C_def
        bucket_name_defs)
  have types: "getBelType dev3_idx bel_A = id_LUT" "getBelType dev3_idx bel_B = id_LUT"
      "getBelType dev3_idx bel_C = id_FF"
    by (simp_all add: dev3_idx_def bel_A_def bel_B_def bel_C_def)
  have answers: "getCellTypes indexed3 = Inr [id_LUT, id_FF]"
      "getCellTypes indexed3 \<noteq> Inr [id_FF, id_LUT]"
      "getBelBuckets indexed3 = Inr [id_LUT, id_FF]"
      "getBelsInBucket indexed3 id_FF = Inr [bel_C]"
      "getBelsInBucket indexed3 id_LUT = Inr [bel_A, bel_B]"
    by (simp_all add: getCellTypes_def getBelBuckets_def getBelsInBucket_def indexed3_def
        id_LUT_def id_FF_def)
  from run types answers show ?thesis by simp
qed

end
